theory Spec2Isabelle
  imports Complex_Main
begin

section \<open>Landmark detection adapter: the data the code reads and writes\<close>

text \<open>
  The source is one Python module, \<^verbatim>\<open>infer_google_vision_landmark_detection_process.py\<close>.
  It stores two parameters, asks a remote vision service for the landmarks of an image and
  turns every annotation of the answer into calls on the host task (\<^verbatim>\<open>set_names\<close>,
  \<^verbatim>\<open>add_object\<close>) and one assignment to a dictionary output.

  The vision SDK, the host task classes and the image encoder are not part of the module.
  The model therefore takes what they do in one run as an argument of \<open>run\<close>: whether the
  constructor of the client raises, and whether the request raises or which answer it
  returns. It records what \<open>run\<close> does to the host as the list of calls it makes, in
  order, without fixing what the host does with them.

  Python floats are modelled as \<^typ>\<open>real\<close>: the code only compares scores with the
  threshold and passes them on, and on finite floats the comparison is the order of the
  reals. Python integers are \<^typ>\<open>int\<close>.
\<close>

subsection \<open>Exceptions\<close>

text \<open>
  \<^verbatim>\<open>Exception\<close> is what the module raises itself; \<^verbatim>\<open>IndexError\<close>, \<^verbatim>\<open>KeyError\<close> and
  \<^verbatim>\<open>ValueError\<close> come from indexing, dictionary lookup and \<^verbatim>\<open>float\<close>; \<open>Raised\<close> stands for an
  exception raised inside the SDK or the encoder, named by its text.
\<close>

datatype exn =
    Exception string
  | IndexError
  | KeyError
  | ValueError
  | Raised string

subsection \<open>The answer of the service\<close>

datatype vertex = Vertex (vertex_x: int) (vertex_y: int)

record BoundingPoly =
  vertices :: "vertex list"

record LatLng =
  latitude :: real
  longitude :: real

record LocationInfo =
  lat_lng :: LatLng

record EntityAnnotation =
  description :: string
  score :: real
  bounding_poly :: BoundingPoly
  locations :: "LocationInfo list"

record Status =
  message :: string

record AnnotateImageResponse =
  error :: Status
  landmark_annotations :: "EntityAnnotation list"

text \<open>
  What the code outside the module does in one run. Line 77, \<^verbatim>\<open>vision.ImageAnnotatorClient()\<close>,
  returns a client or raises (for instance when no credentials are found). Lines 80 to 84,
  the channel reversal, the JPEG encoding and \<^verbatim>\<open>self.client.landmark_detection\<close>, raise or
  return the response.
\<close>

record sdk =
  constructor_raises :: "exn option"
  landmark_detection :: "exn + AnnotateImageResponse"

subsection \<open>Parameters\<close>

record InferGoogleVisionLandmarkDetectionParam =
  conf_thres :: real
  google_application_credentials :: string

text \<open>\<^verbatim>\<open>InferGoogleVisionLandmarkDetectionParam.__init__\<close>\<close>

definition init_param :: InferGoogleVisionLandmarkDetectionParam where
  "init_param = \<lparr>conf_thres = 2 / 10, google_application_credentials = ''''\<rparr>"

text \<open>
  \<^verbatim>\<open>set_values\<close> and \<^verbatim>\<open>get_values\<close> exchange the parameters as a dictionary of strings.
  Python's \<^verbatim>\<open>float\<close> (which raises \<^verbatim>\<open>ValueError\<close> on a string that is no number) and
  \<^verbatim>\<open>str\<close> on a float are builtins of the language; they are arguments of the model.
  \<^verbatim>\<open>str\<close> on a string returns it. A missing key raises \<^verbatim>\<open>KeyError\<close>. The first field is
  assigned before the second key is read, so an error at the second key leaves the first
  assignment in place.
\<close>

definition set_values ::
  "(string \<Rightarrow> real option) \<Rightarrow> InferGoogleVisionLandmarkDetectionParam \<Rightarrow> (string \<rightharpoonup> string)
     \<Rightarrow> exn option \<times> InferGoogleVisionLandmarkDetectionParam" where
  "set_values float_of_str self params =
     (case params ''conf_thres'' of
        None \<Rightarrow> (Some KeyError, self)
      | Some s \<Rightarrow>
          (case float_of_str s of
             None \<Rightarrow> (Some ValueError, self)
           | Some c \<Rightarrow>
               (let self1 = self\<lparr>conf_thres := c\<rparr> in
                case params ''google_application_credentials'' of
                  None \<Rightarrow> (Some KeyError, self1)
                | Some g \<Rightarrow> (None, self1\<lparr>google_application_credentials := g\<rparr>))))"

definition get_values ::
  "(real \<Rightarrow> string) \<Rightarrow> InferGoogleVisionLandmarkDetectionParam \<Rightarrow> (string \<rightharpoonup> string)" where
  "get_values str_of_float self =
     (let params = Map.empty;
          params = params(''conf_thres'' \<mapsto> str_of_float (conf_thres self));
          params = params(''google_application_credentials'' \<mapsto> google_application_credentials self)
      in params)"

subsection \<open>The task and the process environment\<close>

text \<open>
  \<^verbatim>\<open>vision.ImageAnnotatorClient()\<close> takes no argument: the SDK finds its credentials in the
  environment variable \<^verbatim>\<open>GOOGLE_APPLICATION_CREDENTIALS\<close>. The handle of the model keeps
  the value the variable had when the client was built.
\<close>

datatype client = ImageAnnotatorClient (credentials: "string option")

text \<open>
  The state \<open>run\<close> reads and writes: the parameter object and the client field of the
  task, and \<^verbatim>\<open>os.environ\<close> of the process. The field \<^verbatim>\<open>classes\<close> is set to \<^verbatim>\<open>None\<close> by the
  constructor and never used again; the image of input 0 only reaches the call of the
  service, whose answer is an argument of \<open>run\<close>.
\<close>

record state =
  param :: InferGoogleVisionLandmarkDetectionParam
  client :: "client option"
  environ :: "string \<rightharpoonup> string"

text \<open>\<^verbatim>\<open>InferGoogleVisionLandmarkDetection.__init__\<close>, in a process whose environment is \<open>env\<close>.\<close>

definition init_task ::
  "InferGoogleVisionLandmarkDetectionParam option \<Rightarrow> (string \<rightharpoonup> string) \<Rightarrow> state" where
  "init_task p env =
     \<lparr>param = (case p of None \<Rightarrow> init_param | Some q \<Rightarrow> q), client = None, environ = env\<rparr>"

definition get_progress_steps :: nat where
  "get_progress_steps = 1"

subsection \<open>Calls made by a run\<close>

text \<open>
  Everything \<open>run\<close> does outside its own state, in the order of the source:
  the host's \<^verbatim>\<open>begin_task_run\<close>, the SDK constructor, \<^verbatim>\<open>print\<close>, the host's
  \<^verbatim>\<open>set_names\<close> and \<^verbatim>\<open>add_object\<close> (index, class index, confidence, x, y, width, height),
  the assignment to \<^verbatim>\<open>output_dict.data\<close>, \<^verbatim>\<open>emit_step_progress\<close> and \<^verbatim>\<open>end_task_run\<close>.
\<close>

datatype call =
    Begin_task_run
  | New_client
  | Print string
  | Set_names "string list"
  | is_Add_object: Add_object (obj_id: nat) (class_index: nat) (confidence: real)
      (box_x: real) (box_y: real) (box_w: int) (box_h: int)
  | Set_data "(string \<times> string) list"
  | Emit_step_progress
  | End_task_run

record run_result =
  outcome :: "exn + unit"
  calls :: "call list"
  after :: state

section \<open>The run\<close>

text \<open>Python's \<^verbatim>\<open>xs[i]\<close> for a literal index \<open>i \<ge> 0\<close>.\<close>

definition getitem :: "'a list \<Rightarrow> nat \<Rightarrow> exn + 'a" where
  "getitem xs i = (if i < length xs then Inr (xs ! i) else Inl IndexError)"

text \<open>
  Lines 102 to 106: the list of coordinate pairs of the polygon, then
  \<^verbatim>\<open>x_box = vertices[0][0]\<close>, \<^verbatim>\<open>y_box = vertices[0][1]\<close>, \<^verbatim>\<open>w = vertices[1][0] - x_box\<close>,
  \<^verbatim>\<open>h = vertices[2][1] - y_box\<close>.
\<close>

definition box_coordinates :: "EntityAnnotation \<Rightarrow> exn + (int \<times> int \<times> int \<times> int)" where
  "box_coordinates landmark =
     (let pairs = map (\<lambda>vertex. (vertex_x vertex, vertex_y vertex))
                      (vertices (bounding_poly landmark)) in
      case getitem pairs 0 of
        Inl e \<Rightarrow> Inl e
      | Inr v0 \<Rightarrow>
          (let x_box = fst v0; y_box = snd v0 in
           case getitem pairs 1 of
             Inl e \<Rightarrow> Inl e
           | Inr v1 \<Rightarrow>
               (let w = fst v1 - x_box in
                case getitem pairs 2 of
                  Inl e \<Rightarrow> Inl e
                | Inr v2 \<Rightarrow>
                    (let h = snd v2 - y_box in
                     Inr (x_box, y_box, w, h)))))"

text \<open>Line 116: the text printed for one location of a landmark.\<close>

definition location_line :: "(real \<Rightarrow> string) \<Rightarrow> EntityAnnotation \<Rightarrow> LocationInfo \<Rightarrow> string" where
  "location_line str_of_float landmark location =
     description landmark @ '', Latitude: '' @ str_of_float (latitude (lat_lng location))
       @ '', Longitude: '' @ str_of_float (longitude (lat_lng location))"

text \<open>
  Lines 98 to 116: the loop over \<^verbatim>\<open>enumerate(landmarks)\<close>. The calls made so far are
  threaded through; an \<^verbatim>\<open>IndexError\<close> stops the loop and keeps them.
\<close>

fun process_output ::
  "InferGoogleVisionLandmarkDetectionParam \<Rightarrow> (real \<Rightarrow> string) \<Rightarrow> (nat \<times> EntityAnnotation) list
     \<Rightarrow> call list \<Rightarrow> (exn + unit) \<times> call list" where
  "process_output p str_of_float [] cs = (Inr (), cs)"
| "process_output p str_of_float ((i, landmark) # rest) cs =
     (if score landmark < conf_thres p then process_output p str_of_float rest cs
      else
        (case box_coordinates landmark of
           Inl e \<Rightarrow> (Inl e, cs)
         | Inr (x_box, y_box, w, h) \<Rightarrow>
             process_output p str_of_float rest
               (cs @ [Set_names [description landmark],
                      Add_object i 0 (score landmark) (real_of_int x_box) (real_of_int y_box) w h]
                   @ map (\<lambda>location. Print (location_line str_of_float landmark location))
                         (locations landmark))))"

definition error_text :: "string \<Rightarrow> string" where
  "error_text m =
     m @ [CHR 0x0A] @ ''For more info on error messages, check: ''
       @ ''https://cloud.google.com/apis/design/errors''"

text \<open>
  Lines 74 to 77: when the client field is \<^verbatim>\<open>None\<close>, the credentials path, if not empty, is
  written to the environment and the constructor is called. When the constructor raises, the
  assignment to the field does not happen: the field stays \<^verbatim>\<open>None\<close> and the environment keeps
  the write. The result is the exception raised, if any, the state and the calls made.
\<close>

definition acquire_client :: "exn option \<Rightarrow> state \<Rightarrow> exn option \<times> state \<times> call list" where
  "acquire_client raises self =
     (if client self = None then
        (let p = param self;
             env =
               (if google_application_credentials p \<noteq> []
                then (environ self)(''GOOGLE_APPLICATION_CREDENTIALS'' \<mapsto>
                        google_application_credentials p)
                else environ self);
             self0 = self\<lparr>environ := env\<rparr>
         in case raises of
              Some e \<Rightarrow> (Some e, self0, [New_client])
            | None \<Rightarrow>
                (None,
                 self0\<lparr>client := Some (ImageAnnotatorClient (env ''GOOGLE_APPLICATION_CREDENTIALS''))\<rparr>,
                 [New_client]))
      else (None, self, []))"

text \<open>
  \<^verbatim>\<open>InferGoogleVisionLandmarkDetection.run\<close>. \<open>render\<close> is the string rendering of the
  annotation list (\<^verbatim>\<open>f'{landmarks}'\<close>, defined by the SDK's container), \<open>str_of_float\<close> the
  rendering of a float, \<open>w\<close> what the SDK and the encoder do in this run.
\<close>

definition run ::
  "(EntityAnnotation list \<Rightarrow> string) \<Rightarrow> (real \<Rightarrow> string) \<Rightarrow> state \<Rightarrow> sdk \<Rightarrow> run_result" where
  "run render str_of_float self w =
     (let p = param self;
          (raised, self1, built) = acquire_client (constructor_raises w) self;
          cs1 = [Begin_task_run] @ built
      in
      case raised of
        Some e \<Rightarrow> \<lparr>outcome = Inl e, calls = cs1, after = self1\<rparr>
      | None \<Rightarrow>
          (case landmark_detection w of
             Inl e \<Rightarrow> \<lparr>outcome = Inl e, calls = cs1, after = self1\<rparr>
           | Inr response \<Rightarrow>
               if message (error response) \<noteq> [] then
                 \<lparr>outcome = Inl (Exception (error_text (message (error response)))),
                  calls = cs1, after = self1\<rparr>
               else
                 (let landmarks = landmark_annotations response;
                      cs2 = (if length landmarks = 0
                             then cs1 @ [Print ''No landmark detected''] else cs1)
                  in
                  case process_output p str_of_float (enumerate 0 landmarks) cs2 of
                    (Inl e, cs3) \<Rightarrow> \<lparr>outcome = Inl e, calls = cs3, after = self1\<rparr>
                  | (Inr u, cs3) \<Rightarrow>
                      \<lparr>outcome = Inr (),
                       calls = cs3 @ [Set_data [(''Landmarks'', render landmarks)],
                                      Emit_step_progress, End_task_run],
                       after = self1\<rparr>)))"


subsection \<open>Reading the calls of a run\<close>

text \<open>
  The detection boxes added, the name lists registered, the dictionaries assigned to the
  auxiliary output, the lines printed and the number of calls of the client constructor, each
  in the order of the calls.
\<close>

definition boxes :: "call list \<Rightarrow> call list" where
  "boxes cs = filter is_Add_object cs"

definition registered :: "call list \<Rightarrow> string list list" where
  "registered cs = concat (map (\<lambda>c. case c of Set_names ns \<Rightarrow> [ns] | _ \<Rightarrow> []) cs)"

definition written :: "call list \<Rightarrow> (string \<times> string) list list" where
  "written cs = concat (map (\<lambda>c. case c of Set_data d \<Rightarrow> [d] | _ \<Rightarrow> []) cs)"

definition printed :: "call list \<Rightarrow> string list" where
  "printed cs = concat (map (\<lambda>c. case c of Print l \<Rightarrow> [l] | _ \<Rightarrow> []) cs)"


text \<open>
  The calls of one pass through the loop body for the annotation at position \<open>i\<close>: none when
  the annotation is skipped or its polygon is too short, else the registration of its label,
  its box and one printed line for each of its locations.
\<close>

definition landmark_calls ::
  "InferGoogleVisionLandmarkDetectionParam \<Rightarrow> (real \<Rightarrow> string) \<Rightarrow> nat \<times> EntityAnnotation
     \<Rightarrow> call list" where
  "landmark_calls p str_of_float ia =
     (let i = fst ia; landmark = snd ia in
      if score landmark < conf_thres p then []
      else
        (case box_coordinates landmark of
           Inl e \<Rightarrow> []
         | Inr (x_box, y_box, w, h) \<Rightarrow>
             [Set_names [description landmark],
              Add_object i 0 (score landmark) (real_of_int x_box) (real_of_int y_box) w h]
             @ map (\<lambda>location. Print (location_line str_of_float landmark location))
                   (locations landmark)))"

text \<open>
  The \<^verbatim>\<open>add_object\<close> call of line 112 for a retained annotation at position \<open>i\<close> whose
  polygon has at least three vertices.
\<close>

definition box_of :: "nat \<times> EntityAnnotation \<Rightarrow> call" where
  "box_of ia =
     (let i = fst ia; a = snd ia; vs = vertices (bounding_poly a) in
      Add_object i 0 (score a) (real_of_int (vertex_x (vs ! 0))) (real_of_int (vertex_y (vs ! 0)))
        (vertex_x (vs ! 1) - vertex_x (vs ! 0)) (vertex_y (vs ! 2) - vertex_y (vs ! 0)))"

subsection \<open>Sample data\<close>

text \<open>
  Concrete annotations, answers, parameters and renderings, on which the theorems below are
  evaluated: a landmark well above the default threshold, one below it, one exactly at it
  whose polygon is listed from the bottom right corner, one whose polygon has two vertices
  only; an SDK that returns an answer without error, one whose answer has the error message
  \<open>Invalid image\<close>, one whose constructor raises and one whose request raises; a rendering and
  a parser of floats that agree on three numbers.
\<close>

definition square :: "vertex list" where
  "square = [Vertex 10 20, Vertex 110 20, Vertex 110 220, Vertex 10 220]"

definition tower :: EntityAnnotation where
  "tower = \<lparr>description = ''Eiffel Tower'', score = 9 / 10,
            bounding_poly = \<lparr>vertices = square\<rparr>,
            locations = [\<lparr>lat_lng = \<lparr>latitude = 48, longitude = 2\<rparr>\<rparr>]\<rparr>"

definition faint :: EntityAnnotation where
  "faint = \<lparr>description = ''Louvre'', score = 1 / 10,
            bounding_poly = \<lparr>vertices = square\<rparr>, locations = []\<rparr>"

definition borderline :: EntityAnnotation where
  "borderline = \<lparr>description = ''Eiffel Tower'', score = 2 / 10,
                 bounding_poly = \<lparr>vertices = [Vertex 110 220, Vertex 10 220, Vertex 10 20,
                                               Vertex 110 20]\<rparr>,
                 locations = []\<rparr>"

definition reply :: "EntityAnnotation list \<Rightarrow> AnnotateImageResponse" where
  "reply ls = \<lparr>error = \<lparr>message = ''''\<rparr>, landmark_annotations = ls\<rparr>"

definition invalid :: AnnotateImageResponse where
  "invalid = \<lparr>error = \<lparr>message = ''Invalid image''\<rparr>, landmark_annotations = []\<rparr>"

definition serving :: "AnnotateImageResponse \<Rightarrow> sdk" where
  "serving response = \<lparr>constructor_raises = None, landmark_detection = Inr response\<rparr>"

definition answer :: "EntityAnnotation list \<Rightarrow> sdk" where
  "answer ls = serving (reply ls)"

definition failure :: sdk where
  "failure = serving invalid"

definition no_credentials :: sdk where
  "no_credentials =
     \<lparr>constructor_raises = Some (Raised ''DefaultCredentialsError''),
      landmark_detection = Inr (reply [])\<rparr>"

definition unreachable :: sdk where
  "unreachable =
     \<lparr>constructor_raises = None, landmark_detection = Inl (Raised ''ServiceUnavailable'')\<rparr>"

definition stub :: EntityAnnotation where
  "stub = \<lparr>description = ''Arc'', score = 5 / 10,
           bounding_poly = \<lparr>vertices = [Vertex 0 0, Vertex 5 0]\<rparr>, locations = []\<rparr>"

definition fresh :: state where
  "fresh = init_task None Map.empty"

definition show_list :: "EntityAnnotation list \<Rightarrow> string" where
  "show_list ls = ''['' @ concat (map (\<lambda>a. description a @ '';'') ls) @ '']''"

definition show_float :: "real \<Rightarrow> string" where
  "show_float r =
     (if r = 48 then ''48.0'' else if r = 2 then ''2.0'' else if r = 2 / 10 then ''0.2''
      else ''?'')"

definition read_float :: "string \<Rightarrow> real option" where
  "read_float t =
     (if t = ''48.0'' then Some 48 else if t = ''2.0'' then Some 2
      else if t = ''0.2'' then Some (2 / 10) else None)"

definition with_credentials :: "string \<Rightarrow> InferGoogleVisionLandmarkDetectionParam" where
  "with_credentials path = \<lparr>conf_thres = 2 / 10, google_application_credentials = path\<rparr>"

section \<open>Properties of the parameter exchange\<close>

text \<open>
  The dictionary built by \<^verbatim>\<open>get_values\<close> has the two keys, and \<^verbatim>\<open>set_values\<close> reads back
  the parameters it was built from whenever the two builtins agree on the threshold. That
  Python's \<^verbatim>\<open>float\<close> and \<^verbatim>\<open>str\<close> agree on a float is a property of the language's float
  formatting; it enters as a hypothesis on the builtins.
\<close>

lemma get_values_keys:
  "dom (get_values str_of_float p) = {''conf_thres'', ''google_application_credentials''}"
  by (auto simp: get_values_def Let_def)

lemma set_values_get_values:
  "float_of_str (str_of_float (conf_thres p)) = Some (conf_thres p) \<Longrightarrow>
   set_values float_of_str q (get_values str_of_float p) = (None, p)"
  by (simp add: set_values_def get_values_def Let_def)

section \<open>Properties of the loop and of a run\<close>

subsection \<open>The polygon and the loop\<close>

lemma box_coordinates_ok:
  assumes "3 \<le> length (vertices (bounding_poly a))"
  shows "box_coordinates a =
     Inr (vertex_x (vertices (bounding_poly a) ! 0), vertex_y (vertices (bounding_poly a) ! 0),
          vertex_x (vertices (bounding_poly a) ! 1) - vertex_x (vertices (bounding_poly a) ! 0),
          vertex_y (vertices (bounding_poly a) ! 2) - vertex_y (vertices (bounding_poly a) ! 0))"
proof -
  have "0 < length (vertices (bounding_poly a))" "1 < length (vertices (bounding_poly a))"
    "2 < length (vertices (bounding_poly a))"
    using assms by auto
  then show ?thesis
    by (simp add: box_coordinates_def getitem_def Let_def)
qed

lemma box_coordinates_short:
  "length (vertices (bounding_poly a)) < 3 \<Longrightarrow> box_coordinates a = Inl IndexError"
  by (simp add: box_coordinates_def getitem_def Let_def)

lemma process_output_append:
  "\<forall>ia \<in> set ps. score (snd ia) < conf_thres p \<or> 3 \<le> length (vertices (bounding_poly (snd ia))) \<Longrightarrow>
   process_output p F (ps @ qs) cs = process_output p F qs (cs @ concat (map (landmark_calls p F) ps))"
proof (induction ps arbitrary: cs)
  case Nil
  then show ?case by simp
next
  case (Cons ia ps)
  obtain i a where ia: "ia = (i, a)" by (cases ia)
  show ?case
  proof (cases "score a < conf_thres p")
    case True
    then show ?thesis using Cons by (simp add: ia landmark_calls_def)
  next
    case False
    with Cons.prems have "3 \<le> length (vertices (bounding_poly a))" by (simp add: ia)
    then show ?thesis using False Cons
      by (simp add: ia landmark_calls_def box_coordinates_ok)
  qed
qed

lemma process_output_ok:
  assumes "\<forall>ia \<in> set ps. score (snd ia) < conf_thres p \<or> 3 \<le> length (vertices (bounding_poly (snd ia)))"
  shows "process_output p F ps cs = (Inr (), cs @ concat (map (landmark_calls p F) ps))"
  using process_output_append [OF assms, of F "[]" cs] by simp

lemma process_output_extends:
  "\<exists>ds. snd (process_output p F ps cs) = cs @ ds \<and> (\<forall>d \<in> set ds. d \<noteq> New_client \<and> (\<forall>x. d \<noteq> Set_data x))"
proof (induction ps arbitrary: cs)
  case Nil
  then show ?case by simp
next
  case (Cons ia ps)
  obtain i a where ia: "ia = (i, a)" by (cases ia)
  show ?case
  proof (cases "score a < conf_thres p")
    case True
    then show ?thesis using Cons [of cs] by (simp add: ia)
  next
    case False
    show ?thesis
    proof (cases "box_coordinates a")
      case (Inl e)
      then show ?thesis using False by (simp add: ia)
    next
      case (Inr q)
      obtain xb yb w h where q: "q = (xb, yb, w, h)" by (cases q)
      let ?new = "[Set_names [description a],
                   Add_object i 0 (score a) (real_of_int xb) (real_of_int yb) w h]
                  @ map (\<lambda>location. Print (location_line F a location)) (locations a)"
      from Cons [of "cs @ ?new"] obtain ds where
        ds: "snd (process_output p F ps (cs @ ?new)) = (cs @ ?new) @ ds"
          "\<forall>d \<in> set ds. d \<noteq> New_client \<and> (\<forall>x. d \<noteq> Set_data x)"
        by blast
      have "snd (process_output p F (ia # ps) cs) = cs @ (?new @ ds)"
        using False Inr q ds(1) by (simp add: ia)
      moreover have "\<forall>d \<in> set (?new @ ds). d \<noteq> New_client \<and> (\<forall>x. d \<noteq> Set_data x)"
        using ds(2) by auto
      ultimately show ?thesis by blast
    qed
  qed
qed

subsection \<open>Acquiring the client\<close>

lemma acquire_client_raised:
  "fst (acquire_client c s) = (if client s = None then c else None)"
  by (simp add: acquire_client_def Let_def split: option.splits)

lemma acquire_client_calls:
  "snd (snd (acquire_client c s)) = (if client s = None then [New_client] else [])"
  by (simp add: acquire_client_def Let_def split: option.splits)

lemma acquire_client_state:
  "client (fst (snd (acquire_client c s))) =
     (if client s = None
      then (case c of
              Some e \<Rightarrow> None
            | None \<Rightarrow>
                Some (ImageAnnotatorClient
                       (if google_application_credentials (param s) \<noteq> []
                        then Some (google_application_credentials (param s))
                        else environ s ''GOOGLE_APPLICATION_CREDENTIALS'')))
      else client s)"
  "environ (fst (snd (acquire_client c s))) =
     (if client s = None \<and> google_application_credentials (param s) \<noteq> []
      then (environ s)(''GOOGLE_APPLICATION_CREDENTIALS'' \<mapsto> google_application_credentials (param s))
      else environ s)"
  "param (fst (snd (acquire_client c s))) = param s"
  by (simp_all add: acquire_client_def Let_def split: option.splits)

subsection \<open>The shape of a run\<close>

lemma run_unfold:
  "run R F s w =
     (let self1 = fst (snd (acquire_client (constructor_raises w) s));
          cs1 = Begin_task_run # snd (snd (acquire_client (constructor_raises w) s))
      in
      case fst (acquire_client (constructor_raises w) s) of
        Some e \<Rightarrow> \<lparr>outcome = Inl e, calls = cs1, after = self1\<rparr>
      | None \<Rightarrow>
          (case landmark_detection w of
             Inl e \<Rightarrow> \<lparr>outcome = Inl e, calls = cs1, after = self1\<rparr>
           | Inr resp \<Rightarrow>
               if message (error resp) \<noteq> [] then
                 \<lparr>outcome = Inl (Exception (error_text (message (error resp)))),
                  calls = cs1, after = self1\<rparr>
               else
                 (let cs2 = (if landmark_annotations resp = []
                             then cs1 @ [Print ''No landmark detected''] else cs1)
                  in
                  case process_output (param s) F (enumerate 0 (landmark_annotations resp)) cs2 of
                    (Inl e, cs3) \<Rightarrow> \<lparr>outcome = Inl e, calls = cs3, after = self1\<rparr>
                  | (Inr u, cs3) \<Rightarrow>
                      \<lparr>outcome = Inr (),
                       calls = cs3 @ [Set_data [(''Landmarks'', R (landmark_annotations resp))],
                                      Emit_step_progress, End_task_run],
                       after = self1\<rparr>)))"
proof -
  obtain raised self1 built where
    ac: "acquire_client (constructor_raises w) s = (raised, self1, built)"
    by (cases "acquire_client (constructor_raises w) s")
  show ?thesis by (simp add: run_def Let_def ac split: option.splits sum.splits)
qed

lemma after_run: "after (run R F s w) = fst (snd (acquire_client (constructor_raises w) s))"
  by (simp add: run_unfold Let_def split: prod.splits sum.splits option.splits)

lemma run_constructor_raises:
  "fst (acquire_client (constructor_raises w) s) = Some e \<Longrightarrow>
   run R F s w =
     \<lparr>outcome = Inl e,
      calls = Begin_task_run # snd (snd (acquire_client (constructor_raises w) s)),
      after = fst (snd (acquire_client (constructor_raises w) s))\<rparr>"
  by (simp add: run_unfold Let_def)

lemma run_request_raises:
  "fst (acquire_client (constructor_raises w) s) = None \<Longrightarrow> landmark_detection w = Inl e \<Longrightarrow>
   run R F s w =
     \<lparr>outcome = Inl e,
      calls = Begin_task_run # snd (snd (acquire_client (constructor_raises w) s)),
      after = fst (snd (acquire_client (constructor_raises w) s))\<rparr>"
  by (simp add: run_unfold Let_def)

text \<open>
  When the client is there or gets built and the request returns \<open>resp\<close>, the run is the
  part of the source from the error check on.
\<close>

lemma run_served:
  assumes "fst (acquire_client (constructor_raises w) s) = None"
    and "landmark_detection w = Inr resp"
  shows "run R F s w =
     (let self1 = fst (snd (acquire_client (constructor_raises w) s));
          cs1 = Begin_task_run # snd (snd (acquire_client (constructor_raises w) s))
      in
      if message (error resp) \<noteq> [] then
        \<lparr>outcome = Inl (Exception (error_text (message (error resp)))),
         calls = cs1, after = self1\<rparr>
      else
        (let cs2 = (if landmark_annotations resp = []
                    then cs1 @ [Print ''No landmark detected''] else cs1)
         in
         case process_output (param s) F (enumerate 0 (landmark_annotations resp)) cs2 of
           (Inl e, cs3) \<Rightarrow> \<lparr>outcome = Inl e, calls = cs3, after = self1\<rparr>
         | (Inr u, cs3) \<Rightarrow>
             \<lparr>outcome = Inr (),
              calls = cs3 @ [Set_data [(''Landmarks'', R (landmark_annotations resp))],
                             Emit_step_progress, End_task_run],
              after = self1\<rparr>))"
  using assms by (simp add: run_unfold Let_def)

lemma run_error:
  assumes "fst (acquire_client (constructor_raises w) s) = None"
    and "landmark_detection w = Inr resp"
    and "message (error resp) \<noteq> []"
  shows "run R F s w =
     \<lparr>outcome = Inl (Exception (error_text (message (error resp)))),
      calls = Begin_task_run # snd (snd (acquire_client (constructor_raises w) s)),
      after = fst (snd (acquire_client (constructor_raises w) s))\<rparr>"
  using assms(3) by (simp add: run_served [OF assms(1,2)] Let_def)

lemma run_ok:
  assumes "fst (acquire_client (constructor_raises w) s) = None"
    and "landmark_detection w = Inr resp"
    and "message (error resp) = []"
    and "\<forall>a \<in> set (landmark_annotations resp).
           score a < conf_thres (param s) \<or> 3 \<le> length (vertices (bounding_poly a))"
  shows "run R F s w =
     \<lparr>outcome = Inr (),
      calls = Begin_task_run # snd (snd (acquire_client (constructor_raises w) s))
              @ (if landmark_annotations resp = [] then [Print ''No landmark detected''] else [])
              @ concat (map (landmark_calls (param s) F) (enumerate 0 (landmark_annotations resp)))
              @ [Set_data [(''Landmarks'', R (landmark_annotations resp))],
                 Emit_step_progress, End_task_run],
      after = fst (snd (acquire_client (constructor_raises w) s))\<rparr>"
proof -
  have "\<forall>ia \<in> set (enumerate 0 (landmark_annotations resp)).
          score (snd ia) < conf_thres (param s) \<or> 3 \<le> length (vertices (bounding_poly (snd ia)))"
    using assms(4) by (auto simp: in_set_enumerate_eq)
  from process_output_ok [OF this] show ?thesis
    using assms(3) by (simp add: run_served [OF assms(1,2)] Let_def)
qed

subsection \<open>Reading calls off a list\<close>

lemma boxes_simps:
  "boxes [] = []"
  "boxes (c # cs) = (if is_Add_object c then c # boxes cs else boxes cs)"
  "boxes (xs @ ys) = boxes xs @ boxes ys"
  by (simp_all add: boxes_def)

lemma registered_simps:
  "registered [] = []"
  "registered (c # cs) = (case c of Set_names ns \<Rightarrow> [ns] | _ \<Rightarrow> []) @ registered cs"
  "registered (xs @ ys) = registered xs @ registered ys"
  by (simp_all add: registered_def)

lemma written_simps:
  "written [] = []"
  "written (c # cs) = (case c of Set_data d \<Rightarrow> [d] | _ \<Rightarrow> []) @ written cs"
  "written (xs @ ys) = written xs @ written ys"
  by (simp_all add: written_def)

lemma printed_simps:
  "printed [] = []"
  "printed (c # cs) = (case c of Print l \<Rightarrow> [l] | _ \<Rightarrow> []) @ printed cs"
  "printed (xs @ ys) = printed xs @ printed ys"
  by (simp_all add: printed_def)


lemma boxes_prints: "boxes (map (\<lambda>l. Print (f l)) ls) = []"
  by (induction ls) (simp_all add: boxes_simps)

lemma registered_prints: "registered (map (\<lambda>l. Print (f l)) ls) = []"
  by (induction ls) (simp_all add: registered_simps)

lemma written_prints: "written (map (\<lambda>l. Print (f l)) ls) = []"
  by (induction ls) (simp_all add: written_simps)

lemma boxes_landmark_calls:
  "score (snd ia) < conf_thres p \<or> 3 \<le> length (vertices (bounding_poly (snd ia))) \<Longrightarrow>
   boxes (landmark_calls p F ia) = (if score (snd ia) < conf_thres p then [] else [box_of ia])"
  by (auto simp: landmark_calls_def box_coordinates_ok boxes_simps boxes_prints box_of_def Let_def)

lemma registered_landmark_calls:
  "score (snd ia) < conf_thres p \<or> 3 \<le> length (vertices (bounding_poly (snd ia))) \<Longrightarrow>
   registered (landmark_calls p F ia) =
     (if score (snd ia) < conf_thres p then [] else [[description (snd ia)]])"
  by (auto simp: landmark_calls_def box_coordinates_ok registered_simps registered_prints Let_def)

lemma written_landmark_calls: "written (landmark_calls p F ia) = []"
  by (auto simp: landmark_calls_def written_simps written_prints Let_def split: sum.splits)

lemma boxes_loop:
  "\<forall>ia \<in> set ps. score (snd ia) < conf_thres p \<or> 3 \<le> length (vertices (bounding_poly (snd ia))) \<Longrightarrow>
   boxes (concat (map (landmark_calls p F) ps)) =
     map box_of (filter (\<lambda>ia. \<not> score (snd ia) < conf_thres p) ps)"
  by (induction ps) (simp_all add: boxes_simps boxes_landmark_calls)

lemma registered_loop:
  "\<forall>ia \<in> set ps. score (snd ia) < conf_thres p \<or> 3 \<le> length (vertices (bounding_poly (snd ia))) \<Longrightarrow>
   registered (concat (map (landmark_calls p F) ps)) =
     map (\<lambda>ia. [description (snd ia)]) (filter (\<lambda>ia. \<not> score (snd ia) < conf_thres p) ps)"
  by (induction ps) (simp_all add: registered_simps registered_landmark_calls)

lemma written_loop: "written (concat (map (landmark_calls p F) ps)) = []"
  by (induction ps) (simp_all add: written_simps written_landmark_calls)

subsection \<open>Filtering an enumerated list\<close>

lemma filter_snd_enumerate:
  "map snd (filter (\<lambda>ia. P (snd ia)) (enumerate n xs)) = filter P xs"
  by (induction xs arbitrary: n) simp_all

lemma filter_fst_enumerate:
  "map fst (filter (\<lambda>ia. P (snd ia)) (enumerate n xs)) =
     filter (\<lambda>i. P (xs ! (i - n))) [n..<n + length xs]"
proof (induction xs arbitrary: n)
  case Nil
  then show ?case by simp
next
  case (Cons x xs)
  define L where "L = [Suc n..<Suc n + length xs]"
  have shift: "filter (\<lambda>i. P ((x # xs) ! (i - n))) L = filter (\<lambda>i. P (xs ! (i - Suc n))) L"
  proof (rule filter_cong [OF refl])
    fix i assume "i \<in> set L"
    then have "i - n = Suc (i - Suc n)" by (auto simp: L_def)
    then show "P ((x # xs) ! (i - n)) = P (xs ! (i - Suc n))" by simp
  qed
  have "n < n + length (x # xs)" by simp
  then have "[n..<n + length (x # xs)] = n # [Suc n..<n + length (x # xs)]"
    by (rule upt_conv_Cons)
  moreover have "n + length (x # xs) = Suc n + length xs" by simp
  ultimately have upt: "[n..<n + length (x # xs)] = n # L"
    by (simp only: L_def)
  have "map fst (filter (\<lambda>ia. P (snd ia)) (enumerate n (x # xs))) =
        (if P x then [n] else []) @ map fst (filter (\<lambda>ia. P (snd ia)) (enumerate (Suc n) xs))"
    by simp
  also have "\<dots> = (if P x then [n] else []) @ filter (\<lambda>i. P (xs ! (i - Suc n))) L"
    by (simp only: Cons.IH L_def)
  also have "\<dots> = filter (\<lambda>i. P ((x # xs) ! (i - n))) (n # L)"
    by (simp add: shift)
  finally show ?case by (simp only: upt)
qed

subsection \<open>The calls of a run that meets no short polygon\<close>

lemma run_boxes:
  assumes "fst (acquire_client (constructor_raises w) s) = None"
    and "landmark_detection w = Inr resp"
    and "message (error resp) = []"
    and "\<forall>a \<in> set (landmark_annotations resp).
           score a < conf_thres (param s) \<or> 3 \<le> length (vertices (bounding_poly a))"
  shows "boxes (calls (run R F s w)) =
     map box_of (filter (\<lambda>ia. \<not> score (snd ia) < conf_thres (param s))
                        (enumerate 0 (landmark_annotations resp)))"
proof -
  have wf: "\<forall>ia \<in> set (enumerate 0 (landmark_annotations resp)).
          score (snd ia) < conf_thres (param s) \<or> 3 \<le> length (vertices (bounding_poly (snd ia)))"
    using assms(4) by (auto simp: in_set_enumerate_eq)
  have "boxes (calls (run R F s w)) =
        boxes (concat (map (landmark_calls (param s) F) (enumerate 0 (landmark_annotations resp))))"
    by (simp add: run_ok [OF assms] acquire_client_calls boxes_simps)
  then show ?thesis by (simp add: boxes_loop [OF wf])
qed

lemma run_registered:
  assumes "fst (acquire_client (constructor_raises w) s) = None"
    and "landmark_detection w = Inr resp"
    and "message (error resp) = []"
    and "\<forall>a \<in> set (landmark_annotations resp).
           score a < conf_thres (param s) \<or> 3 \<le> length (vertices (bounding_poly a))"
  shows "registered (calls (run R F s w)) =
     map (\<lambda>a. [description a])
         (filter (\<lambda>a. \<not> score a < conf_thres (param s)) (landmark_annotations resp))"
proof -
  have wf: "\<forall>ia \<in> set (enumerate 0 (landmark_annotations resp)).
          score (snd ia) < conf_thres (param s) \<or> 3 \<le> length (vertices (bounding_poly (snd ia)))"
    using assms(4) by (auto simp: in_set_enumerate_eq)
  have "registered (calls (run R F s w)) =
        registered (concat (map (landmark_calls (param s) F) (enumerate 0 (landmark_annotations resp))))"
    by (simp add: run_ok [OF assms] acquire_client_calls registered_simps)
  also have "\<dots> = map (\<lambda>a. [description a])
       (map snd (filter (\<lambda>ia. \<not> score (snd ia) < conf_thres (param s))
                        (enumerate 0 (landmark_annotations resp))))"
    by (simp add: registered_loop [OF wf] comp_def)
  also have "\<dots> = map (\<lambda>a. [description a])
       (filter (\<lambda>a. \<not> score a < conf_thres (param s)) (landmark_annotations resp))"
    using filter_snd_enumerate [of "\<lambda>a. \<not> score a < conf_thres (param s)" 0 "landmark_annotations resp"]
    by simp
  finally show ?thesis .
qed

lemma run_written:
  assumes "fst (acquire_client (constructor_raises w) s) = None"
    and "landmark_detection w = Inr resp"
    and "message (error resp) = []"
    and "\<forall>a \<in> set (landmark_annotations resp).
           score a < conf_thres (param s) \<or> 3 \<le> length (vertices (bounding_poly a))"
  shows "written (calls (run R F s w)) = [[(''Landmarks'', R (landmark_annotations resp))]]"
  by (simp add: run_ok [OF assms] acquire_client_calls written_simps written_loop)

lemma well_formed_iff:
  "(\<forall>a \<in> set ls. conf_thres p \<le> score a \<longrightarrow> 3 \<le> length (vertices (bounding_poly a))) \<longleftrightarrow>
   (\<forall>a \<in> set ls. score a < conf_thres p \<or> 3 \<le> length (vertices (bounding_poly a)))"
  by (auto simp: not_less [symmetric])

lemma obj_id_box_of: "obj_id (box_of ia) = fst ia" "class_index (box_of ia) = 0"
  "confidence (box_of ia) = score (snd ia)"
  by (simp_all add: box_of_def Let_def)

lemma acquired_iff:
  "fst (acquire_client c s) = None \<longleftrightarrow> client s \<noteq> None \<or> c = None"
  by (auto simp: acquire_client_raised)

subsection \<open>Unfolding the sample data\<close>

lemmas sample_defs = answer_def failure_def serving_def reply_def invalid_def no_credentials_def
  unreachable_def fresh_def init_task_def init_param_def faint_def tower_def borderline_def
  stub_def square_def with_credentials_def

lemmas run_defs = run_def acquire_client_def box_coordinates_def getitem_def location_line_def
  error_text_def Let_def

subsection \<open>Runs in general\<close>

lemma process_output_outcome:
  "fst (process_output p F ps cs) = Inr () \<or> fst (process_output p F ps cs) = Inl IndexError"
proof (induction ps arbitrary: cs)
  case Nil
  then show ?case by simp
next
  case (Cons ia ps)
  obtain i a where ia: "ia = (i, a)" by (cases ia)
  show ?case
  proof (cases "score a < conf_thres p")
    case True
    then show ?thesis using Cons [of cs] by (simp add: ia)
  next
    case False
    show ?thesis
    proof (cases "3 \<le> length (vertices (bounding_poly a))")
      case True
      then show ?thesis using False Cons by (simp add: ia box_coordinates_ok)
    next
      case short: False
      then have "box_coordinates a = Inl IndexError"
        by (simp add: box_coordinates_short)
      then show ?thesis using False by (simp add: ia)
    qed
  qed
qed

lemma written_none:
  "\<forall>d \<in> set ds. d \<noteq> New_client \<and> (\<forall>x. d \<noteq> Set_data x) \<Longrightarrow> written ds = []"
proof (induction ds)
  case Nil
  then show ?case by (simp add: written_simps)
next
  case (Cons d ds)
  then show ?case by (cases d) (simp_all add: written_simps)
qed

lemma process_output_short:
  "\<exists>ia \<in> set ps. \<not> score (snd ia) < conf_thres p \<and> length (vertices (bounding_poly (snd ia))) < 3 \<Longrightarrow>
   fst (process_output p F ps cs) = Inl IndexError"
proof (induction ps arbitrary: cs)
  case Nil
  then show ?case by simp
next
  case (Cons ia ps)
  obtain i a where ia: "ia = (i, a)" by (cases ia)
  show ?case
  proof (cases "score a < conf_thres p")
    case True
    with Cons.prems have "\<exists>ia \<in> set ps. \<not> score (snd ia) < conf_thres p
        \<and> length (vertices (bounding_poly (snd ia))) < 3"
      by (auto simp: ia)
    from Cons.IH [OF this] show ?thesis using True by (simp add: ia)
  next
    case False
    show ?thesis
    proof (cases "3 \<le> length (vertices (bounding_poly a))")
      case short: False
      then have "box_coordinates a = Inl IndexError"
        by (simp add: box_coordinates_short)
      then show ?thesis using False by (simp add: ia)
    next
      case True
      with Cons.prems have "\<exists>ia \<in> set ps. \<not> score (snd ia) < conf_thres p
          \<and> length (vertices (bounding_poly (snd ia))) < 3"
        by (auto simp: ia)
      from Cons.IH [OF this] show ?thesis using False True
        by (simp add: ia box_coordinates_ok)
    qed
  qed
qed

lemma run_calls:
  assumes "fst (acquire_client (constructor_raises w) s) = None"
    and "landmark_detection w = Inr resp"
    and "message (error resp) = []"
  shows "calls (run R F s w) =
     snd (process_output (param s) F (enumerate 0 (landmark_annotations resp))
            (Begin_task_run # snd (snd (acquire_client (constructor_raises w) s))
             @ (if landmark_annotations resp = [] then [Print ''No landmark detected''] else [])))
     @ (if fst (process_output (param s) F (enumerate 0 (landmark_annotations resp))
            (Begin_task_run # snd (snd (acquire_client (constructor_raises w) s))
             @ (if landmark_annotations resp = [] then [Print ''No landmark detected''] else [])))
           = Inr ()
        then [Set_data [(''Landmarks'', R (landmark_annotations resp))],
              Emit_step_progress, End_task_run]
        else [])"
proof -
  let ?cs1 = "Begin_task_run # snd (snd (acquire_client (constructor_raises w) s))"
  let ?cs2 = "?cs1 @ (if landmark_annotations resp = [] then [Print ''No landmark detected''] else [])"
  obtain res cs3 where po:
    "process_output (param s) F (enumerate 0 (landmark_annotations resp)) ?cs2 = (res, cs3)"
    by (cases "process_output (param s) F (enumerate 0 (landmark_annotations resp)) ?cs2")
  from po have po': "process_output (param s) F (enumerate 0 (landmark_annotations resp))
          (if landmark_annotations resp = [] then ?cs1 @ [Print ''No landmark detected'']
           else ?cs1) = (res, cs3)"
    by (simp split: if_splits)
  show ?thesis
  proof (cases res)
    case (Inl e)
    then show ?thesis using assms(3) po po'
      by (simp add: run_served [OF assms(1,2)] Let_def)
  next
    case (Inr u)
    then show ?thesis using assms(3) po po'
      by (simp add: run_served [OF assms(1,2)] Let_def)
  qed
qed

lemma run_outcome:
  assumes "fst (acquire_client (constructor_raises w) s) = None"
    and "landmark_detection w = Inr resp"
    and "message (error resp) = []"
  shows "outcome (run R F s w) =
     fst (process_output (param s) F (enumerate 0 (landmark_annotations resp))
            (Begin_task_run # snd (snd (acquire_client (constructor_raises w) s))
             @ (if landmark_annotations resp = [] then [Print ''No landmark detected''] else [])))"
proof -
  let ?cs1 = "Begin_task_run # snd (snd (acquire_client (constructor_raises w) s))"
  let ?cs2 = "?cs1 @ (if landmark_annotations resp = [] then [Print ''No landmark detected''] else [])"
  obtain res cs3 where po:
    "process_output (param s) F (enumerate 0 (landmark_annotations resp)) ?cs2 = (res, cs3)"
    by (cases "process_output (param s) F (enumerate 0 (landmark_annotations resp)) ?cs2")
  from po have po': "process_output (param s) F (enumerate 0 (landmark_annotations resp))
          (if landmark_annotations resp = [] then ?cs1 @ [Print ''No landmark detected'']
           else ?cs1) = (res, cs3)"
    by (simp split: if_splits)
  show ?thesis
  proof (cases res)
    case (Inl e)
    then show ?thesis using assms(3) po po'
      by (simp add: run_served [OF assms(1,2)] Let_def)
  next
    case (Inr u)
    then show ?thesis using assms(3) po po'
      by (simp add: run_served [OF assms(1,2)] Let_def)
  qed
qed

lemma run_completes_served:
  assumes "outcome (run R F s w) = Inr ()"
  shows "fst (acquire_client (constructor_raises w) s) = None
       \<and> (\<exists>resp. landmark_detection w = Inr resp \<and> message (error resp) = [])"
proof (cases "fst (acquire_client (constructor_raises w) s)")
  case (Some e)
  from run_constructor_raises [OF this, of R F] assms show ?thesis by simp
next
  case None
  show ?thesis
  proof (cases "landmark_detection w")
    case (Inl e)
    from run_request_raises [OF None this, of R F] assms show ?thesis by simp
  next
    case (Inr resp)
    show ?thesis
    proof (cases "message (error resp) = []")
      case True
      with None Inr show ?thesis by simp
    next
      case False
      from run_error [OF None Inr False, of R F] assms show ?thesis by simp
    qed
  qed
qed

lemma run_written_any:
  assumes "landmark_detection w = Inr resp"
  shows "written (calls (run R F s w)) =
     (if outcome (run R F s w) = Inr ()
      then [[(''Landmarks'', R (landmark_annotations resp))]] else [])"
proof (cases "fst (acquire_client (constructor_raises w) s)")
  case (Some e)
  then show ?thesis
    by (simp add: run_constructor_raises acquire_client_calls written_simps)
next
  case None
  show ?thesis
  proof (cases "message (error resp) = []")
    case False
    then show ?thesis
      by (simp add: run_error [OF None assms] acquire_client_calls written_simps)
  next
    case True
    let ?cs2 = "Begin_task_run # snd (snd (acquire_client (constructor_raises w) s))
               @ (if landmark_annotations resp = [] then [Print ''No landmark detected''] else [])"
    obtain ds where ds:
      "snd (process_output (param s) F (enumerate 0 (landmark_annotations resp)) ?cs2) = ?cs2 @ ds"
      "\<forall>d \<in> set ds. d \<noteq> New_client \<and> (\<forall>x. d \<noteq> Set_data x)"
      using process_output_extends by blast
    have "written (?cs2 @ ds) = []"
      by (simp add: written_simps acquire_client_calls written_none [OF ds(2)])
    then show ?thesis
      by (simp only: run_calls [OF None assms True] run_outcome [OF None assms True] ds(1)
          written_simps)
         (simp add: written_simps)
  qed
qed

lemma run_raises_quiet:
  assumes "fst (acquire_client (constructor_raises w) s) \<noteq> None
           \<or> (\<exists>e. landmark_detection w = Inl e)"
  shows "(\<exists>e. outcome (run R F s w) = Inl e) \<and> boxes (calls (run R F s w)) = []
       \<and> written (calls (run R F s w)) = [] \<and> registered (calls (run R F s w)) = []"
proof (cases "fst (acquire_client (constructor_raises w) s)")
  case (Some e)
  then show ?thesis
    by (simp add: run_constructor_raises acquire_client_calls boxes_simps written_simps
        registered_simps)
next
  case None
  with assms obtain e where "landmark_detection w = Inl e" by auto
  from run_request_raises [OF None this, of R F] show ?thesis
    by (simp add: acquire_client_calls boxes_simps written_simps registered_simps)
qed

subsection \<open>The client and the environment\<close>






section \<open>The claims\<close>

text \<open>
  Claim C1. When the client is available, the request returns and the service reports no
  error, \<open>run\<close> adds exactly one box for each annotation whose score is at least the
  threshold and none for an annotation below it, in the order of the service: the
  annotations the boxes point to (through their index into the list of the service) are the
  retained ones in order, the boxes carry their scores, and no two boxes have the same index.
  The comparison is \<open>\<le>\<close>, so a score equal to the threshold is retained. The polygons of the
  retained annotations have the three vertices the code reads (the data model gives every
  polygon four).
\<close>

theorem run_boxes_retained:
  assumes "client s \<noteq> None \<or> constructor_raises w = None"
    and "landmark_detection w = Inr resp"
    and "message (error resp) = []"
    and "\<forall>a \<in> set (landmark_annotations resp).
           conf_thres (param s) \<le> score a \<longrightarrow> 3 \<le> length (vertices (bounding_poly a))"
  shows "map (\<lambda>b. landmark_annotations resp ! obj_id b) (boxes (calls (run R F s w))) =
           [a \<leftarrow> landmark_annotations resp. conf_thres (param s) \<le> score a]
       \<and> map confidence (boxes (calls (run R F s w))) =
           map score [a \<leftarrow> landmark_annotations resp. conf_thres (param s) \<le> score a]
       \<and> distinct (map obj_id (boxes (calls (run R F s w))))"
proof -
  let ?ls = "landmark_annotations resp"
  let ?kept = "filter (\<lambda>ia. \<not> score (snd ia) < conf_thres (param s)) (enumerate 0 ?ls)"
  have srv: "fst (acquire_client (constructor_raises w) s) = None"
    using assms(1) by (simp add: acquired_iff)
  have wf: "\<forall>a \<in> set ?ls. score a < conf_thres (param s) \<or> 3 \<le> length (vertices (bounding_poly a))"
    using assms(4) by (simp only: well_formed_iff)
  have bs: "boxes (calls (run R F s w)) = map box_of ?kept"
    by (rule run_boxes [OF srv assms(2,3) wf])
  have snd_kept: "map snd ?kept = [a \<leftarrow> ?ls. conf_thres (param s) \<le> score a]"
    using filter_snd_enumerate [of "\<lambda>a. \<not> score a < conf_thres (param s)" 0 ?ls]
    by (simp add: not_less)
  have "map (\<lambda>b. ?ls ! obj_id b) (map box_of ?kept) = map snd ?kept"
    by (auto simp: obj_id_box_of in_set_enumerate_eq)
  then have one: "map (\<lambda>b. ?ls ! obj_id b) (boxes (calls (run R F s w))) =
                  [a \<leftarrow> ?ls. conf_thres (param s) \<le> score a]"
    by (simp only: bs snd_kept)
  have "map confidence (map box_of ?kept) = map score (map snd ?kept)"
    by (simp add: obj_id_box_of comp_def)
  then have two: "map confidence (boxes (calls (run R F s w))) =
                  map score [a \<leftarrow> ?ls. conf_thres (param s) \<le> score a]"
    by (simp only: bs snd_kept)
  have "map obj_id (map box_of ?kept) = map fst ?kept"
    by (simp add: obj_id_box_of comp_def)
  moreover have "distinct (map fst ?kept)"
    by (rule distinct_map_filter) simp
  ultimately have three: "distinct (map obj_id (boxes (calls (run R F s w))))"
    by (simp only: bs)
  from one two three show ?thesis by blast
qed

text \<open>
  Claim C1 on a sample: three annotations with scores 0.1, 0.9 and 0.2 and the default
  threshold 0.2. The second and the third are retained, the third at the boundary.
\<close>

theorem run_boxes_retained_witness:
  "constructor_raises (answer [faint, tower, borderline]) = None
   \<and> landmark_detection (answer [faint, tower, borderline]) = Inr (reply [faint, tower, borderline])
   \<and> message (error (reply [faint, tower, borderline])) = []
   \<and> 3 \<le> length (vertices (bounding_poly tower))
   \<and> 3 \<le> length (vertices (bounding_poly borderline))
   \<and> map (\<lambda>b. landmark_annotations (reply [faint, tower, borderline]) ! obj_id b)
         (boxes (calls (run show_list show_float fresh (answer [faint, tower, borderline])))) =
       [tower, borderline]
   \<and> map confidence
         (boxes (calls (run show_list show_float fresh (answer [faint, tower, borderline])))) =
       [9 / 10, 2 / 10]"
proof -
  have h0: "constructor_raises (answer [faint, tower, borderline]) = None"
    and hd: "landmark_detection (answer [faint, tower, borderline]) =
             Inr (reply [faint, tower, borderline])"
    by (simp_all add: answer_def serving_def)
  have h1: "message (error (reply [faint, tower, borderline])) = []"
    by (simp add: reply_def)
  have h2: "\<forall>a \<in> set (landmark_annotations (reply [faint, tower, borderline])).
         conf_thres (param fresh) \<le> score a \<longrightarrow> 3 \<le> length (vertices (bounding_poly a))"
    by (simp add: sample_defs)
  have kept: "[a \<leftarrow> landmark_annotations (reply [faint, tower, borderline]).
                conf_thres (param fresh) \<le> score a] = [tower, borderline]"
    by (simp add: sample_defs)
  have sc: "map score [tower, borderline] = [9 / 10, 2 / 10]"
    by (simp add: sample_defs)
  have h3: "3 \<le> length (vertices (bounding_poly tower))"
    "3 \<le> length (vertices (bounding_poly borderline))"
    by (simp_all add: sample_defs)
  from run_boxes_retained [OF disjI2 [OF h0] hd h1 h2, of show_list show_float] h0 hd h1 h3
  show ?thesis
    by (simp only: kept sc simp_thms)
qed

text \<open>
  Claim C2. A retained annotation with the polygon \<open>[(x0,y0),(x1,y1),(x2,y2),(x3,y3)]\<close> gets
  the box \<open>(x0, y0, x1 - x0, y2 - y0)\<close>. The fourth vertex does not occur in the box, and
  width and height are the plain differences, whatever their sign. The box is found in the
  list of boxes at the number of retained annotations before it.
\<close>

theorem box_geometry:
  assumes "client s \<noteq> None \<or> constructor_raises w = None"
    and "landmark_detection w = Inr resp"
    and "message (error resp) = []"
    and "\<forall>b \<in> set (landmark_annotations resp).
           conf_thres (param s) \<le> score b \<longrightarrow> 3 \<le> length (vertices (bounding_poly b))"
    and "landmark_annotations resp = pre @ a # post"
    and "conf_thres (param s) \<le> score a"
    and "vertices (bounding_poly a) = [Vertex x0 y0, Vertex x1 y1, Vertex x2 y2, Vertex x3 y3]"
  shows "boxes (calls (run R F s w)) ! length [b \<leftarrow> pre. conf_thres (param s) \<le> score b] =
           Add_object (length pre) 0 (score a) (real_of_int x0) (real_of_int y0) (x1 - x0) (y2 - y0)"
proof -
  let ?ls = "landmark_annotations resp"
  let ?keep = "\<lambda>ia. \<not> score (snd ia) < conf_thres (param s)"
  have srv: "fst (acquire_client (constructor_raises w) s) = None"
    using assms(1) by (simp add: acquired_iff)
  have wf: "\<forall>a \<in> set ?ls. score a < conf_thres (param s) \<or> 3 \<le> length (vertices (bounding_poly a))"
    using assms(4) by (simp only: well_formed_iff)
  have bs: "boxes (calls (run R F s w)) = map box_of (filter ?keep (enumerate 0 ?ls))"
    by (rule run_boxes [OF srv assms(2,3) wf])
  have split: "enumerate 0 ?ls =
               enumerate 0 pre @ (length pre, a) # enumerate (Suc (length pre)) post"
    by (simp add: assms(5) enumerate_append_eq)
  have len: "length (map box_of (filter ?keep (enumerate 0 pre))) =
             length [b \<leftarrow> pre. conf_thres (param s) \<le> score b]"
    using arg_cong [OF filter_snd_enumerate [of "\<lambda>a. \<not> score a < conf_thres (param s)" 0 pre],
                    of length]
    by (simp add: not_less)
  have "boxes (calls (run R F s w)) =
        map box_of (filter ?keep (enumerate 0 pre))
        @ box_of (length pre, a) # map box_of (filter ?keep (enumerate (Suc (length pre)) post))"
    using assms(6) by (simp add: bs split)
  then have "boxes (calls (run R F s w)) ! length [b \<leftarrow> pre. conf_thres (param s) \<le> score b] =
        box_of (length pre, a)"
    by (simp only: len [symmetric] nth_append_length)
  then show ?thesis by (simp add: box_of_def assms(7))
qed

text \<open>
  Claim C2 on a sample whose polygon starts at the bottom right corner: width and height are
  negative and are passed on as they are.
\<close>

theorem box_geometry_witness:
  "constructor_raises (answer [faint, borderline]) = None
   \<and> landmark_detection (answer [faint, borderline]) = Inr (reply [faint, borderline])
   \<and> message (error (reply [faint, borderline])) = []
   \<and> 3 \<le> length (vertices (bounding_poly borderline))
   \<and> landmark_annotations (reply [faint, borderline]) = [faint] @ borderline # []
   \<and> conf_thres (param fresh) \<le> score borderline
   \<and> vertices (bounding_poly borderline) =
       [Vertex 110 220, Vertex 10 220, Vertex 10 20, Vertex 110 20]
   \<and> boxes (calls (run show_list show_float fresh (answer [faint, borderline])))
       ! length [b \<leftarrow> [faint]. conf_thres (param fresh) \<le> score b] =
       Add_object 1 0 (2 / 10) 110 220 (- 100) (- 200)"
proof -
  have h0: "constructor_raises (answer [faint, borderline]) = None"
    and hd: "landmark_detection (answer [faint, borderline]) = Inr (reply [faint, borderline])"
    by (simp_all add: answer_def serving_def)
  have h1: "message (error (reply [faint, borderline])) = []"
    by (simp add: reply_def)
  have h2: "\<forall>b \<in> set (landmark_annotations (reply [faint, borderline])).
         conf_thres (param fresh) \<le> score b \<longrightarrow> 3 \<le> length (vertices (bounding_poly b))"
    by (simp add: sample_defs)
  have h3: "landmark_annotations (reply [faint, borderline]) = [faint] @ borderline # []"
    by (simp add: reply_def)
  have h4: "conf_thres (param fresh) \<le> score borderline"
    by (simp add: sample_defs)
  have h5: "vertices (bounding_poly borderline) =
       [Vertex 110 220, Vertex 10 220, Vertex 10 20, Vertex 110 20]"
    by (simp add: sample_defs)
  have sc: "score borderline = 2 / 10" by (simp add: sample_defs)
  have h6: "3 \<le> length (vertices (bounding_poly borderline))"
    by (simp add: sample_defs)
  from box_geometry [OF disjI2 [OF h0] hd h1 h2 h3 h4 h5, of show_list show_float]
    h0 hd h1 h3 h4 h5 h6
  show ?thesis
    by (simp add: sc)
qed

text \<open>
  Claim C3, as amended. \<open>run\<close> raises exactly when the constructor of the client raises, the
  request raises, the response carries a non-empty error message, or a retained annotation
  has a polygon of fewer than three vertices. When the client is available, the request
  returns and the error message is not empty, the exception's message is the service's
  message, a newline and the documentation pointer, and the run has added no box, registered
  no label and written no auxiliary output.
\<close>

theorem run_raises_on_service_error:
  "((\<exists>e. outcome (run R F s w) = Inl e) \<longleftrightarrow>
      (client s = None \<and> constructor_raises w \<noteq> None)
      \<or> (\<exists>e. landmark_detection w = Inl e)
      \<or> (\<exists>resp. landmark_detection w = Inr resp \<and>
            (message (error resp) \<noteq> []
             \<or> (\<exists>a \<in> set (landmark_annotations resp).
                   conf_thres (param s) \<le> score a \<and> length (vertices (bounding_poly a)) < 3))))
   \<and> ((client s \<noteq> None \<or> constructor_raises w = None) \<and> landmark_detection w = Inr resp
        \<and> message (error resp) \<noteq> [] \<longrightarrow>
          outcome (run R F s w) =
            Inl (Exception (message (error resp) @ [CHR 0x0A]
                   @ ''For more info on error messages, check: ''
                   @ ''https://cloud.google.com/apis/design/errors''))
        \<and> boxes (calls (run R F s w)) = []
        \<and> written (calls (run R F s w)) = []
        \<and> registered (calls (run R F s w)) = [])"
proof -
  let ?short = "\<lambda>r. \<exists>a \<in> set (landmark_annotations r).
                   conf_thres (param s) \<le> score a \<and> length (vertices (bounding_poly a)) < 3"
  have first: "(\<exists>e. outcome (run R F s w) = Inl e) \<longleftrightarrow>
      (client s = None \<and> constructor_raises w \<noteq> None)
      \<or> (\<exists>e. landmark_detection w = Inl e)
      \<or> (\<exists>resp. landmark_detection w = Inr resp \<and> (message (error resp) \<noteq> [] \<or> ?short resp))"
  proof (cases "fst (acquire_client (constructor_raises w) s)")
    case (Some e)
    then have "client s = None \<and> constructor_raises w \<noteq> None"
      by (auto simp: acquire_client_raised split: if_splits)
    moreover have "\<exists>e. outcome (run R F s w) = Inl e"
      by (simp add: run_constructor_raises [OF Some])
    ultimately show ?thesis by blast
  next
    case None
    then have acq: "\<not> (client s = None \<and> constructor_raises w \<noteq> None)"
      by (auto simp: acquire_client_raised split: if_splits)
    show ?thesis
    proof (cases "landmark_detection w")
      case (Inl e)
      have "\<exists>e. outcome (run R F s w) = Inl e"
        by (simp add: run_request_raises [OF None Inl])
      then show ?thesis using Inl by blast
    next
      case (Inr resp)
      show ?thesis
      proof (cases "message (error resp) = []")
        case False
        have "\<exists>e. outcome (run R F s w) = Inl e"
          by (simp add: run_error [OF None Inr False])
        then show ?thesis using Inr False by blast
      next
        case True
        show ?thesis
        proof (cases "?short resp")
          case short: True
          then obtain a where a: "a \<in> set (landmark_annotations resp)"
              "conf_thres (param s) \<le> score a" "length (vertices (bounding_poly a)) < 3"
            by blast
          from a(1) obtain i where i: "i < length (landmark_annotations resp)"
              "landmark_annotations resp ! i = a"
            by (auto simp: in_set_conv_nth)
          then have "(i, a) \<in> set (enumerate 0 (landmark_annotations resp))"
            by (simp add: in_set_enumerate_eq)
          then have "\<exists>ia \<in> set (enumerate 0 (landmark_annotations resp)).
              \<not> score (snd ia) < conf_thres (param s)
              \<and> length (vertices (bounding_poly (snd ia))) < 3"
            using a(2,3) by (intro bexI [of _ "(i, a)"]) (simp_all add: not_less)
          from process_output_short [OF this]
          have "outcome (run R F s w) = Inl IndexError"
            by (simp add: run_outcome [OF None Inr True])
          then show ?thesis using Inr short by auto
        next
          case ok: False
          then have wf: "\<forall>a \<in> set (landmark_annotations resp).
              score a < conf_thres (param s) \<or> 3 \<le> length (vertices (bounding_poly a))"
            by (auto simp: not_less not_le)
          have "outcome (run R F s w) = Inr ()"
            by (simp add: run_ok [OF None Inr True wf])
          then show ?thesis using acq Inr True ok by auto
        qed
      qed
    qed
  qed
  have second: "outcome (run R F s w) =
            Inl (Exception (message (error resp) @ [CHR 0x0A]
                   @ ''For more info on error messages, check: ''
                   @ ''https://cloud.google.com/apis/design/errors''))
        \<and> boxes (calls (run R F s w)) = []
        \<and> written (calls (run R F s w)) = []
        \<and> registered (calls (run R F s w)) = []"
    if "client s \<noteq> None \<or> constructor_raises w = None" "landmark_detection w = Inr resp"
      "message (error resp) \<noteq> []"
  proof -
    have srv: "fst (acquire_client (constructor_raises w) s) = None"
      using that(1) by (simp add: acquired_iff)
    show ?thesis
      by (simp add: run_error [OF srv that(2,3)] acquire_client_calls error_text_def boxes_simps
          written_simps registered_simps)
  qed
  from first second show ?thesis by blast
qed

text \<open>
  Claim C3 (amended) on the error message \<open>Invalid image\<close>, and on an answer without error
  and with whole polygons, where the run completes.
\<close>

theorem run_raises_on_service_error_witness:
  "constructor_raises failure = None
   \<and> landmark_detection failure = Inr invalid
   \<and> message (error invalid) \<noteq> []
   \<and> outcome (run show_list show_float fresh failure) =
       Inl (Exception (''Invalid image'' @ [CHR 0x0A]
              @ ''For more info on error messages, check: ''
              @ ''https://cloud.google.com/apis/design/errors''))
   \<and> boxes (calls (run show_list show_float fresh failure)) = []
   \<and> written (calls (run show_list show_float fresh failure)) = []
   \<and> outcome (run show_list show_float fresh (answer [faint, tower])) = Inr ()"
proof -
  have h0: "constructor_raises failure = None" and hd: "landmark_detection failure = Inr invalid"
    by (simp_all add: failure_def serving_def)
  have h1: "message (error invalid) \<noteq> []" and m: "message (error invalid) = ''Invalid image''"
    by (simp_all add: invalid_def)
  from run_raises_on_service_error [of show_list show_float fresh failure invalid] h0 hd h1
  have bad: "outcome (run show_list show_float fresh failure) =
       Inl (Exception (''Invalid image'' @ [CHR 0x0A]
              @ ''For more info on error messages, check: ''
              @ ''https://cloud.google.com/apis/design/errors''))
   \<and> boxes (calls (run show_list show_float fresh failure)) = []
   \<and> written (calls (run show_list show_float fresh failure)) = []"
    by (simp only: m simp_thms)
  have quiet: "\<not> ((client fresh = None \<and> constructor_raises (answer [faint, tower]) \<noteq> None)
      \<or> (\<exists>e. landmark_detection (answer [faint, tower]) = Inl e)
      \<or> (\<exists>resp. landmark_detection (answer [faint, tower]) = Inr resp \<and>
            (message (error resp) \<noteq> []
             \<or> (\<exists>a \<in> set (landmark_annotations resp).
                   conf_thres (param fresh) \<le> score a
                   \<and> length (vertices (bounding_poly a)) < 3))))"
    by (simp add: sample_defs)
  from run_raises_on_service_error [of show_list show_float fresh "answer [faint, tower]"] quiet
  have "\<not> (\<exists>e. outcome (run show_list show_float fresh (answer [faint, tower])) = Inl e)"
    by blast
  then have good: "outcome (run show_list show_float fresh (answer [faint, tower])) = Inr ()"
    by (cases "outcome (run show_list show_float fresh (answer [faint, tower]))") simp_all
  from h0 hd h1 bad good show ?thesis by blast
qed

text \<open>
  Claim C3 as it was stated (an exception only with a non-empty error message) fails. With
  no error message, an annotation above the threshold whose polygon has two vertices makes
  the run raise \<^verbatim>\<open>IndexError\<close>, after the box of the annotation before it was added; and a
  constructor that raises makes the run raise before any request.
\<close>

theorem short_polygon_counterexample:
  "landmark_detection (answer [tower, stub]) = Inr (reply [tower, stub])
   \<and> message (error (reply [tower, stub])) = []
   \<and> outcome (run show_list show_float fresh (answer [tower, stub])) = Inl IndexError
   \<and> boxes (calls (run show_list show_float fresh (answer [tower, stub]))) =
       [Add_object 0 0 (9 / 10) 10 20 100 200]
   \<and> outcome (run show_list show_float fresh no_credentials) =
       Inl (Raised ''DefaultCredentialsError'')"
  by (simp add: sample_defs run_defs boxes_def)

text \<open>
  Claim C4, as amended. The index of each box is the position of its annotation in the list
  the service returned (the \<open>i\<close> of \<^verbatim>\<open>enumerate(landmarks)\<close>, counted before the filter),
  and the class index of every box is 0.
\<close>

theorem box_index_is_service_position:
  assumes "client s \<noteq> None \<or> constructor_raises w = None"
    and "landmark_detection w = Inr resp"
    and "message (error resp) = []"
    and "\<forall>a \<in> set (landmark_annotations resp).
           conf_thres (param s) \<le> score a \<longrightarrow> 3 \<le> length (vertices (bounding_poly a))"
  shows "map obj_id (boxes (calls (run R F s w))) =
           [i \<leftarrow> [0..<length (landmark_annotations resp)].
              conf_thres (param s) \<le> score (landmark_annotations resp ! i)]
       \<and> (\<forall>b \<in> set (boxes (calls (run R F s w))). class_index b = 0)"
proof -
  let ?ls = "landmark_annotations resp"
  let ?kept = "filter (\<lambda>ia. \<not> score (snd ia) < conf_thres (param s)) (enumerate 0 ?ls)"
  have srv: "fst (acquire_client (constructor_raises w) s) = None"
    using assms(1) by (simp add: acquired_iff)
  have wf: "\<forall>a \<in> set ?ls. score a < conf_thres (param s) \<or> 3 \<le> length (vertices (bounding_poly a))"
    using assms(4) by (simp only: well_formed_iff)
  have bs: "boxes (calls (run R F s w)) = map box_of ?kept"
    by (rule run_boxes [OF srv assms(2,3) wf])
  have "map obj_id (map box_of ?kept) = map fst ?kept"
    by (simp add: obj_id_box_of comp_def)
  also have "\<dots> = [i \<leftarrow> [0..<length ?ls]. conf_thres (param s) \<le> score (?ls ! i)]"
    using filter_fst_enumerate [of "\<lambda>a. \<not> score a < conf_thres (param s)" 0 ?ls]
    by (simp add: not_less)
  finally have one: "map obj_id (boxes (calls (run R F s w))) =
                  [i \<leftarrow> [0..<length ?ls]. conf_thres (param s) \<le> score (?ls ! i)]"
    by (simp only: bs)
  have two: "\<forall>b \<in> set (boxes (calls (run R F s w))). class_index b = 0"
    by (auto simp: bs obj_id_box_of)
  from one two show ?thesis by blast
qed

text \<open>Claim C4 (amended) on the sample of three annotations: the boxes have the indices 1 and 2.\<close>

theorem box_index_is_service_position_witness:
  "constructor_raises (answer [faint, tower, borderline]) = None
   \<and> landmark_detection (answer [faint, tower, borderline]) = Inr (reply [faint, tower, borderline])
   \<and> message (error (reply [faint, tower, borderline])) = []
   \<and> 3 \<le> length (vertices (bounding_poly tower))
   \<and> 3 \<le> length (vertices (bounding_poly borderline))
   \<and> map obj_id
         (boxes (calls (run show_list show_float fresh (answer [faint, tower, borderline])))) =
       [1, 2]
   \<and> list_all (\<lambda>b. class_index b = 0)
         (boxes (calls (run show_list show_float fresh (answer [faint, tower, borderline]))))"
proof -
  have h0: "constructor_raises (answer [faint, tower, borderline]) = None"
    and hd: "landmark_detection (answer [faint, tower, borderline]) =
             Inr (reply [faint, tower, borderline])"
    by (simp_all add: answer_def serving_def)
  have h1: "message (error (reply [faint, tower, borderline])) = []"
    by (simp add: reply_def)
  have h2: "\<forall>a \<in> set (landmark_annotations (reply [faint, tower, borderline])).
         conf_thres (param fresh) \<le> score a \<longrightarrow> 3 \<le> length (vertices (bounding_poly a))"
    by (simp add: sample_defs)
  have pos: "[i \<leftarrow> [0..<length (landmark_annotations (reply [faint, tower, borderline]))].
               conf_thres (param fresh)
                 \<le> score (landmark_annotations (reply [faint, tower, borderline]) ! i)] = [1, 2]"
    by (simp add: sample_defs upt_rec)
  have h3: "3 \<le> length (vertices (bounding_poly tower))"
    "3 \<le> length (vertices (bounding_poly borderline))"
    by (simp_all add: sample_defs)
  from box_index_is_service_position [OF disjI2 [OF h0] hd h1 h2, of show_list show_float]
    h0 hd h1 h3
  show ?thesis
    by (simp only: pos simp_thms list_all_iff) blast
qed

text \<open>
  Claim C4 as it was stated (the index is the position among the retained annotations) fails:
  with one annotation below the threshold before one above it, the only retained annotation
  has position 0 among the retained ones and its box has index 1.
\<close>

theorem box_index_counterexample:
  "[a \<leftarrow> landmark_annotations (reply [faint, tower]). conf_thres (param fresh) \<le> score a] = [tower]
   \<and> boxes (calls (run show_list show_float fresh (answer [faint, tower]))) =
       [Add_object 1 0 (9 / 10) 10 20 100 200]
   \<and> obj_id (boxes (calls (run show_list show_float fresh (answer [faint, tower]))) ! 0) \<noteq> 0"
  by (simp add: sample_defs run_defs boxes_def)

text \<open>
  Claim C5. A completed run calls \<^verbatim>\<open>set_names\<close> once for each retained annotation, in order,
  each time with the one-element list of that annotation's description; nothing is
  deduplicated. The labels registered over the run are therefore the descriptions of the
  annotations whose score is at least the threshold. (Registered means passed to
  \<^verbatim>\<open>set_names\<close>; what the host keeps of earlier lists is outside the module.)
\<close>

theorem labels_registered:
  assumes "client s \<noteq> None \<or> constructor_raises w = None"
    and "landmark_detection w = Inr resp"
    and "message (error resp) = []"
    and "\<forall>a \<in> set (landmark_annotations resp).
           conf_thres (param s) \<le> score a \<longrightarrow> 3 \<le> length (vertices (bounding_poly a))"
  shows "outcome (run R F s w) = Inr ()
       \<and> registered (calls (run R F s w)) =
           map (\<lambda>a. [description a])
               [a \<leftarrow> landmark_annotations resp. conf_thres (param s) \<le> score a]
       \<and> set (concat (registered (calls (run R F s w)))) =
           description ` {a \<in> set (landmark_annotations resp). conf_thres (param s) \<le> score a}"
proof -
  have srv: "fst (acquire_client (constructor_raises w) s) = None"
    using assms(1) by (simp add: acquired_iff)
  have wf: "\<forall>a \<in> set (landmark_annotations resp).
          score a < conf_thres (param s) \<or> 3 \<le> length (vertices (bounding_poly a))"
    using assms(4) by (simp only: well_formed_iff)
  have fin: "outcome (run R F s w) = Inr ()"
    by (simp add: run_ok [OF srv assms(2,3) wf])
  have reg: "registered (calls (run R F s w)) =
           map (\<lambda>a. [description a])
               [a \<leftarrow> landmark_annotations resp. conf_thres (param s) \<le> score a]"
    using run_registered [OF srv assms(2,3) wf, of R F] by (simp add: not_less)
  have "set (concat (map (\<lambda>a. [description a]) xs)) = description ` set xs"
    for xs :: "EntityAnnotation list"
    by (induction xs) auto
  then have "set (concat (registered (calls (run R F s w)))) =
           description ` {a \<in> set (landmark_annotations resp). conf_thres (param s) \<le> score a}"
    by (simp add: reg)
  with fin reg show ?thesis by blast
qed

text \<open>
  Claim C5 on the sample: two retained annotations with the same description give two
  registrations of it and one label.
\<close>

theorem labels_registered_witness:
  "constructor_raises (answer [faint, tower, borderline]) = None
   \<and> landmark_detection (answer [faint, tower, borderline]) = Inr (reply [faint, tower, borderline])
   \<and> message (error (reply [faint, tower, borderline])) = []
   \<and> 3 \<le> length (vertices (bounding_poly tower))
   \<and> 3 \<le> length (vertices (bounding_poly borderline))
   \<and> registered (calls (run show_list show_float fresh (answer [faint, tower, borderline]))) =
       [[''Eiffel Tower''], [''Eiffel Tower'']]
   \<and> set (concat (registered
         (calls (run show_list show_float fresh (answer [faint, tower, borderline]))))) =
       {''Eiffel Tower''}"
proof -
  have h0: "constructor_raises (answer [faint, tower, borderline]) = None"
    and hd: "landmark_detection (answer [faint, tower, borderline]) =
             Inr (reply [faint, tower, borderline])"
    by (simp_all add: answer_def serving_def)
  have h1: "message (error (reply [faint, tower, borderline])) = []"
    by (simp add: reply_def)
  have h2: "\<forall>a \<in> set (landmark_annotations (reply [faint, tower, borderline])).
         conf_thres (param fresh) \<le> score a \<longrightarrow> 3 \<le> length (vertices (bounding_poly a))"
    by (simp add: sample_defs)
  have h3: "3 \<le> length (vertices (bounding_poly tower))"
    "3 \<le> length (vertices (bounding_poly borderline))"
    by (simp_all add: sample_defs)
  have kept: "[a \<leftarrow> landmark_annotations (reply [faint, tower, borderline]).
                conf_thres (param fresh) \<le> score a] = [tower, borderline]"
    by (simp add: sample_defs)
  have names: "map (\<lambda>a. [description a]) [tower, borderline] =
               [[''Eiffel Tower''], [''Eiffel Tower'']]"
    by (simp add: sample_defs)
  from labels_registered [OF disjI2 [OF h0] hd h1 h2, of show_list show_float]
  have reg: "registered (calls (run show_list show_float fresh
                                  (answer [faint, tower, borderline]))) =
             [[''Eiffel Tower''], [''Eiffel Tower'']]"
    by (simp only: kept names)
  from reg h0 hd h1 h3 show ?thesis by simp
qed

text \<open>
  Claim C6. Whenever \<open>run\<close> completes, the request has returned a response and the run has
  assigned the auxiliary output exactly once: the dictionary with the single key
  \<open>Landmarks\<close> and the rendering of the whole list of that response; neither the threshold
  nor the filter occurs in it. The run completes when the client is available, the request
  returns, the service reports no error and the retained polygons have three vertices.
\<close>

theorem landmarks_output:
  "(outcome (run R F s w) = Inr () \<longrightarrow>
      (\<exists>resp. landmark_detection w = Inr resp
         \<and> written (calls (run R F s w)) = [[(''Landmarks'', R (landmark_annotations resp))]]))
   \<and> ((client s \<noteq> None \<or> constructor_raises w = None) \<and> landmark_detection w = Inr resp'
        \<and> message (error resp') = [] \<and>
        (\<forall>a \<in> set (landmark_annotations resp').
           conf_thres (param s) \<le> score a \<longrightarrow> 3 \<le> length (vertices (bounding_poly a))) \<longrightarrow>
      outcome (run R F s w) = Inr ()
      \<and> written (calls (run R F s w)) = [[(''Landmarks'', R (landmark_annotations resp'))]])"
proof -
  have one: "\<exists>resp. landmark_detection w = Inr resp
         \<and> written (calls (run R F s w)) = [[(''Landmarks'', R (landmark_annotations resp))]]"
    if fin: "outcome (run R F s w) = Inr ()"
  proof -
    from run_completes_served [OF fin] obtain resp where det: "landmark_detection w = Inr resp"
      by blast
    from run_written_any [OF det, of R F s] fin det show ?thesis by simp
  qed
  have two: "outcome (run R F s w) = Inr ()"
    if "client s \<noteq> None \<or> constructor_raises w = None" "landmark_detection w = Inr resp'"
      "message (error resp') = []"
      and "\<forall>a \<in> set (landmark_annotations resp').
          conf_thres (param s) \<le> score a \<longrightarrow> 3 \<le> length (vertices (bounding_poly a))"
  proof -
    have srv: "fst (acquire_client (constructor_raises w) s) = None"
      using that(1) by (simp add: acquired_iff)
    from that(4) have wf: "\<forall>a \<in> set (landmark_annotations resp').
          score a < conf_thres (param s) \<or> 3 \<le> length (vertices (bounding_poly a))"
      by (simp only: well_formed_iff)
    show ?thesis by (simp add: run_ok [OF srv that(2,3) wf])
  qed
  have three: "written (calls (run R F s w)) = [[(''Landmarks'', R (landmark_annotations resp'))]]"
    if "landmark_detection w = Inr resp'" "outcome (run R F s w) = Inr ()"
    using run_written_any [OF that(1), of R F s] that(2) by simp
  from one two three show ?thesis by blast
qed

text \<open>Claim C6 on a sample: the annotation below the threshold is part of the rendering.\<close>

theorem landmarks_output_witness:
  "constructor_raises (answer [faint, tower]) = None
   \<and> landmark_detection (answer [faint, tower]) = Inr (reply [faint, tower])
   \<and> message (error (reply [faint, tower])) = []
   \<and> 3 \<le> length (vertices (bounding_poly tower))
   \<and> outcome (run show_list show_float fresh (answer [faint, tower])) = Inr ()
   \<and> written (calls (run show_list show_float fresh (answer [faint, tower]))) =
       [[(''Landmarks'', ''[Louvre;Eiffel Tower;]'')]]"
proof -
  have h0: "constructor_raises (answer [faint, tower]) = None"
    and hd: "landmark_detection (answer [faint, tower]) = Inr (reply [faint, tower])"
    by (simp_all add: answer_def serving_def)
  have h1: "message (error (reply [faint, tower])) = []"
    by (simp add: reply_def)
  have h2: "\<forall>a \<in> set (landmark_annotations (reply [faint, tower])).
         conf_thres (param fresh) \<le> score a \<longrightarrow> 3 \<le> length (vertices (bounding_poly a))"
    by (simp add: sample_defs)
  have h3: "3 \<le> length (vertices (bounding_poly tower))"
    by (simp add: sample_defs)
  have r: "show_list (landmark_annotations (reply [faint, tower])) = ''[Louvre;Eiffel Tower;]''"
    by (simp add: sample_defs show_list_def)
  from landmarks_output [of show_list show_float fresh "answer [faint, tower]"
      "reply [faint, tower]"] h0 hd h1 h2
  have "outcome (run show_list show_float fresh (answer [faint, tower])) = Inr ()
      \<and> written (calls (run show_list show_float fresh (answer [faint, tower]))) =
       [[(''Landmarks'', show_list (landmark_annotations (reply [faint, tower])))]]"
    by blast
  with h0 hd h1 h3 show ?thesis by (simp only: r simp_thms)
qed




text \<open>
  Claim C8, as amended. When the client is available, the request returns, the service
  reports no error and no annotation reaches the threshold, \<open>run\<close> completes, adds no box and
  writes the rendering of the whole list of the service. The notice \<open>No landmark detected\<close>
  is printed when that list is empty, and only then; the rendering is that of the empty list
  in that case.
\<close>

theorem no_retained_annotations:
  assumes "client s \<noteq> None \<or> constructor_raises w = None"
    and "landmark_detection w = Inr resp"
    and "message (error resp) = []"
    and "[a \<leftarrow> landmark_annotations resp. conf_thres (param s) \<le> score a] = []"
  shows "outcome (run R F s w) = Inr ()
       \<and> boxes (calls (run R F s w)) = []
       \<and> written (calls (run R F s w)) = [[(''Landmarks'', R (landmark_annotations resp))]]
       \<and> (landmark_annotations resp = [] \<longrightarrow>
            printed (calls (run R F s w)) = [''No landmark detected''])
       \<and> (landmark_annotations resp \<noteq> [] \<longrightarrow> printed (calls (run R F s w)) = [])"
proof -
  have srv: "fst (acquire_client (constructor_raises w) s) = None"
    using assms(1) by (simp add: acquired_iff)
  have low: "\<forall>a \<in> set (landmark_annotations resp). score a < conf_thres (param s)"
    using assms(4) by (simp add: filter_empty_conv not_le)
  then have wf: "\<forall>a \<in> set (landmark_annotations resp).
          score a < conf_thres (param s) \<or> 3 \<le> length (vertices (bounding_poly a))"
    by blast
  have skip: "concat (map (landmark_calls (param s) F) (enumerate 0 (landmark_annotations resp))) = []"
    using low by (auto simp: landmark_calls_def Let_def in_set_enumerate_eq)
  have ok: "outcome (run R F s w) = Inr ()"
    by (simp add: run_ok [OF srv assms(2,3) wf])
  have low': "\<forall>ia \<in> set (enumerate 0 (landmark_annotations resp)).
                score (snd ia) < conf_thres (param s)"
    using low by (auto simp: in_set_enumerate_eq)
  have bx: "boxes (calls (run R F s w)) = []"
    using run_boxes [OF srv assms(2,3) wf, of R F] low'
    by (simp add: filter_empty_conv)
  have wr: "written (calls (run R F s w)) = [[(''Landmarks'', R (landmark_annotations resp))]]"
    by (rule run_written [OF srv assms(2,3) wf])
  have pr: "printed (calls (run R F s w)) =
            (if landmark_annotations resp = [] then [''No landmark detected''] else [])"
    by (simp add: run_ok [OF srv assms(2,3) wf] skip acquire_client_calls printed_simps)
  from ok bx wr pr show ?thesis by simp
qed

text \<open>Claim C8 (amended) on the empty list and on a list of one annotation below the threshold.\<close>

theorem no_retained_annotations_witness:
  "constructor_raises (answer []) = None
   \<and> landmark_detection (answer []) = Inr (reply [])
   \<and> message (error (reply [])) = []
   \<and> outcome (run show_list show_float fresh (answer [])) = Inr ()
   \<and> boxes (calls (run show_list show_float fresh (answer []))) = []
   \<and> written (calls (run show_list show_float fresh (answer []))) = [[(''Landmarks'', ''[]'')]]
   \<and> printed (calls (run show_list show_float fresh (answer []))) = [''No landmark detected'']
   \<and> constructor_raises (answer [faint]) = None
   \<and> landmark_detection (answer [faint]) = Inr (reply [faint])
   \<and> message (error (reply [faint])) = []
   \<and> [a \<leftarrow> landmark_annotations (reply [faint]). conf_thres (param fresh) \<le> score a] = []
   \<and> outcome (run show_list show_float fresh (answer [faint])) = Inr ()
   \<and> boxes (calls (run show_list show_float fresh (answer [faint]))) = []
   \<and> written (calls (run show_list show_float fresh (answer [faint]))) =
       [[(''Landmarks'', ''[Louvre;]'')]]
   \<and> printed (calls (run show_list show_float fresh (answer [faint]))) = []"
proof -
  have a0: "constructor_raises (answer []) = None"
    and ad: "landmark_detection (answer []) = Inr (reply [])"
    and b0: "constructor_raises (answer [faint]) = None"
    and bd: "landmark_detection (answer [faint]) = Inr (reply [faint])"
    by (simp_all add: answer_def serving_def)
  have a1: "message (error (reply [])) = []"
    and a2: "[a \<leftarrow> landmark_annotations (reply []). conf_thres (param fresh) \<le> score a] = []"
    and a3: "landmark_annotations (reply []) = []"
    by (simp_all add: reply_def)
  have b1: "message (error (reply [faint])) = []"
    and b2: "[a \<leftarrow> landmark_annotations (reply [faint]). conf_thres (param fresh) \<le> score a] = []"
    and b3: "landmark_annotations (reply [faint]) \<noteq> []"
    by (simp_all add: sample_defs)
  have r: "show_list (landmark_annotations (reply [])) = ''[]''"
    "show_list (landmark_annotations (reply [faint])) = ''[Louvre;]''"
    "show_list [] = ''[]''"
    by (simp_all add: sample_defs show_list_def)
  from no_retained_annotations [OF disjI2 [OF a0] ad a1 a2, of show_list show_float] a3
  have one: "outcome (run show_list show_float fresh (answer [])) = Inr ()
   \<and> boxes (calls (run show_list show_float fresh (answer []))) = []
   \<and> written (calls (run show_list show_float fresh (answer []))) = [[(''Landmarks'', ''[]'')]]
   \<and> printed (calls (run show_list show_float fresh (answer []))) = [''No landmark detected'']"
    by (simp only: r simp_thms)
  from no_retained_annotations [OF disjI2 [OF b0] bd b1 b2, of show_list show_float] b3
  have two: "outcome (run show_list show_float fresh (answer [faint])) = Inr ()
   \<and> boxes (calls (run show_list show_float fresh (answer [faint]))) = []
   \<and> written (calls (run show_list show_float fresh (answer [faint]))) =
       [[(''Landmarks'', ''[Louvre;]'')]]
   \<and> printed (calls (run show_list show_float fresh (answer [faint]))) = []"
    by (simp only: r simp_thms)
  from a0 ad a1 b0 bd b1 b2 one two show ?thesis by blast
qed

text \<open>
  Claim C8 as it was stated fails when annotations are returned and none passes the filter:
  the run completes without a notice, and the auxiliary output renders the returned list, not
  the empty one.
\<close>

theorem notice_counterexample:
  "message (error (reply [faint])) = []
   \<and> [a \<leftarrow> landmark_annotations (reply [faint]). conf_thres (param fresh) \<le> score a] = []
   \<and> outcome (run show_list show_float fresh (answer [faint])) = Inr ()
   \<and> printed (calls (run show_list show_float fresh (answer [faint]))) = []
   \<and> written (calls (run show_list show_float fresh (answer [faint]))) =
       [[(''Landmarks'', ''[Louvre;]'')]]
   \<and> written (calls (run show_list show_float fresh (answer [faint]))) \<noteq>
       [[(''Landmarks'', show_list [])]]"
  by (simp add: sample_defs run_defs printed_def written_def show_list_def)

text \<open>
  Claim C9. Let \<open>D\<close> be a set of floats on which the builtins agree, \<^verbatim>\<open>float(str(c)) == c\<close>
  (Python documents this for every finite float). For parameters whose threshold is in \<open>D\<close>,
  \<^verbatim>\<open>set_values\<close> applied, on any parameter object, to the dictionary of \<^verbatim>\<open>get_values\<close> raises
  nothing and leaves an object equal to the original; the dictionary has exactly the two
  keys, each mapped to a string: the rendering of the threshold and the credentials path.
\<close>

theorem parameters_round_trip:
  assumes "\<forall>c \<in> D. float_of_str (str_of_float c) = Some c"
    and "conf_thres p \<in> D"
  shows "set_values float_of_str q (get_values str_of_float p) = (None, p)
       \<and> dom (get_values str_of_float p) = {''conf_thres'', ''google_application_credentials''}
       \<and> get_values str_of_float p ''conf_thres'' = Some (str_of_float (conf_thres p))
       \<and> get_values str_of_float p ''google_application_credentials'' =
           Some (google_application_credentials p)"
proof -
  from assms have "float_of_str (str_of_float (conf_thres p)) = Some (conf_thres p)"
    by blast
  then have "set_values float_of_str q (get_values str_of_float p) = (None, p)"
    by (rule set_values_get_values)
  moreover have "get_values str_of_float p ''conf_thres'' = Some (str_of_float (conf_thres p))"
    "get_values str_of_float p ''google_application_credentials'' =
           Some (google_application_credentials p)"
    by (simp_all add: get_values_def Let_def)
  ultimately show ?thesis by (simp add: get_values_keys)
qed

text \<open>
  Claim C9 on a rendering and a parser that agree on 0.2, 2 and 48: the default parameters
  are overwritten by those read back from the dictionary.
\<close>

theorem parameters_round_trip_witness:
  "read_float (show_float (2 / 10)) = Some (2 / 10)
   \<and> read_float (show_float 2) = Some 2
   \<and> read_float (show_float 48) = Some 48
   \<and> conf_thres (with_credentials ''key.json'') = 2 / 10
   \<and> set_values read_float (init_param\<lparr>conf_thres := 48\<rparr>)
         (get_values show_float (with_credentials ''key.json'')) =
       (None, with_credentials ''key.json'')
   \<and> get_values show_float (with_credentials ''key.json'') ''conf_thres'' = Some ''0.2''"
proof -
  have h1: "\<forall>c \<in> {2 / 10, 2, 48}. read_float (show_float c) = Some c"
    by (simp add: read_float_def show_float_def)
  have h1': "read_float (show_float (2 / 10)) = Some (2 / 10)"
    "read_float (show_float 2) = Some 2" "read_float (show_float 48) = Some 48"
    using h1 by simp_all
  have c: "conf_thres (with_credentials ''key.json'') = 2 / 10"
    by (simp add: with_credentials_def)
  then have h2: "conf_thres (with_credentials ''key.json'') \<in> {2 / 10, 2, 48}"
    by simp
  have sh: "show_float (2 / 10) = ''0.2''" by (simp add: show_float_def)
  note t = parameters_round_trip [OF h1 h2, of "init_param\<lparr>conf_thres := 48\<rparr>"]
  from t have a: "set_values read_float (init_param\<lparr>conf_thres := 48\<rparr>)
         (get_values show_float (with_credentials ''key.json'')) =
       (None, with_credentials ''key.json'')"
    by blast
  from t have "get_values show_float (with_credentials ''key.json'') ''conf_thres'' =
      Some (show_float (conf_thres (with_credentials ''key.json'')))"
    by blast
  then have b: "get_values show_float (with_credentials ''key.json'') ''conf_thres'' =
      Some ''0.2''"
    by (simp only: c sh)
  from h1' c a b show ?thesis by blast
qed

text \<open>
  Claim C10. After \<open>run\<close> the environment is the one before it, except that the credential
  variable holds the credentials path when the client was absent and the path is not empty.
  No other variable changes, and with an empty path or an existing client nothing changes.
  This holds for every run, also one that raises and one whose constructor raises.
\<close>

theorem environment_frame:
  "environ (after (run R F s w)) =
     (if client s = None \<and> google_application_credentials (param s) \<noteq> []
      then (environ s)(''GOOGLE_APPLICATION_CREDENTIALS'' \<mapsto> google_application_credentials (param s))
      else environ s)
   \<and> (\<forall>k. k \<noteq> ''GOOGLE_APPLICATION_CREDENTIALS'' \<longrightarrow>
          environ (after (run R F s w)) k = environ s k)
   \<and> (google_application_credentials (param s) = [] \<or> client s \<noteq> None \<longrightarrow>
          environ (after (run R F s w)) = environ s)"
  by (simp add: after_run acquire_client_state)

text \<open>
  Claim C10 on four runs: no client and no path, no client and a path, a client and a path,
  and no client, a path and a constructor that raises.
\<close>

theorem environment_frame_witness:
  "environ (after (run show_list show_float fresh (answer [tower]))) = Map.empty
   \<and> environ (after (run show_list show_float
                        (fresh\<lparr>param := with_credentials ''key.json''\<rparr>) (answer [tower])))
       ''GOOGLE_APPLICATION_CREDENTIALS'' = Some ''key.json''
   \<and> environ (after (run show_list show_float
                        (fresh\<lparr>param := with_credentials ''key.json'',
                               client := Some (ImageAnnotatorClient None)\<rparr>) (answer [tower])))
       = Map.empty
   \<and> environ (after (run show_list show_float
                        (fresh\<lparr>param := with_credentials ''key.json''\<rparr>) no_credentials))
       ''GOOGLE_APPLICATION_CREDENTIALS'' = Some ''key.json''"
  using environment_frame [of show_list show_float fresh "answer [tower]"]
    environment_frame [of show_list show_float "fresh\<lparr>param := with_credentials ''key.json''\<rparr>"
      "answer [tower]"]
    environment_frame [of show_list show_float
      "fresh\<lparr>param := with_credentials ''key.json'', client := Some (ImageAnnotatorClient None)\<rparr>"
      "answer [tower]"]
    environment_frame [of show_list show_float "fresh\<lparr>param := with_credentials ''key.json''\<rparr>"
      no_credentials]
  by (simp add: sample_defs)

end
